theory Spec2Isabelle
  imports Complex_Main
begin

section \<open>Conventions\<close>

text \<open>
  The two modules verified here are \<^verbatim>\<open>pycont/newton.py\<close> (the Newton solver) and
  \<^verbatim>\<open>src/pacopy/natural.py\<close> (the natural-parameter continuation driver).

  Python floats are modelled as the real numbers: rounding, overflow and underflow are
  not part of the model. The statements proved of the driver's arithmetic are therefore
  kept to what rounding preserves: non-strict bounds and orderings, and exact operations
  such as \<^verbatim>\<open>min\<close>. The default \<^verbatim>\<open>float("inf")\<close> of an option is \<open>None\<close>.
  A numpy array is an element of a real vector space; \<^verbatim>\<open>numpy.linalg.norm\<close> is the
  norm of a real normed vector space. Caller-supplied functions (the residual, the
  Jacobian solver, the norm, the callback) are pure functions of the values they receive.
  Progress output (\<^verbatim>\<open>verbose\<close>) is left out: it has no influence on control flow.
\<close>

datatype error =
    NewtonConvergenceError int   \<comment> \<open>the step count \<^verbatim>\<open>k\<close> put into the message\<close>
  | StopIteration
  | ZeroDivisionError

section \<open>The Newton solver of \<^verbatim>\<open>pycont/newton.py\<close>\<close>

text \<open>
  Arrays are objects: \<^verbatim>\<open>u = u0.copy()\<close> creates a new one and \<^verbatim>\<open>u += du\<close> writes into
  the object that \<^verbatim>\<open>u\<close> refers to. The store is the list of all array objects, an
  address is a position in it. Allocation appends.
\<close>

type_synonym 'v store = "'v list"

text \<open>
  The \<^verbatim>\<open>while k < max_iter\<close> loop. Its variables are the store (holding \<^verbatim>\<open>u\<close> at
  address \<open>a\<close>), \<^verbatim>\<open>fu\<close>, \<^verbatim>\<open>nrm\<close> and \<^verbatim>\<open>k\<close>; it yields the final store, \<^verbatim>\<open>k\<close> and
  \<^verbatim>\<open>is_converged\<close>.
\<close>

function newton_loop ::
  "('v::plus \<Rightarrow> 'r::real_normed_vector) \<Rightarrow> ('v \<Rightarrow> 'r \<Rightarrow> 'v) \<Rightarrow> real \<Rightarrow> int \<Rightarrow> nat
     \<Rightarrow> 'v store \<Rightarrow> 'r \<Rightarrow> real \<Rightarrow> int \<Rightarrow> 'v store \<times> int \<times> bool" where
  "newton_loop f jacobian_solver tol max_iter a h fu nrm k =
     (if k < max_iter then
        if nrm < tol then (h, k, True)
        else
          let du = jacobian_solver (h ! a) (- fu);
              h' = h[a := h ! a + du];
              fu' = f (h' ! a);
              nrm' = norm fu'
          in newton_loop f jacobian_solver tol max_iter a h' fu' nrm' (k + 1)
      else (h, k, False))"
  by pat_completeness auto
termination
  by (relation "measure (\<lambda>(f, js, tol, max_iter, a, h, fu, nrm, k). nat (max_iter - k))") auto

declare newton_loop.simps [simp del]

text \<open>
  \<^verbatim>\<open>newton(f, jacobian_solver, u0, tol, max_iter)\<close>, with \<open>u0\<close> the address of the
  argument array. The result is the error raised or the address of the returned array
  (line 37 returns \<^verbatim>\<open>u\<close> alone), together with the final store.
\<close>

definition newton ::
  "('v::plus \<Rightarrow> 'r::real_normed_vector) \<Rightarrow> ('v \<Rightarrow> 'r \<Rightarrow> 'v) \<Rightarrow> nat \<Rightarrow> real \<Rightarrow> int
     \<Rightarrow> 'v store \<Rightarrow> (error + nat) \<times> 'v store" where
  "newton f jacobian_solver u0 tol max_iter h =
     (let a = length h;
          h1 = h @ [h ! u0];
          fu = f (h1 ! a);
          nrm = norm fu
      in case newton_loop f jacobian_solver tol max_iter a h1 fu nrm 0 of
           (h2, k, is_converged) \<Rightarrow>
             if \<not> is_converged then (Inl (NewtonConvergenceError k), h2)
             else (Inr a, h2))"



section \<open>The continuation driver of \<^verbatim>\<open>src/pacopy/natural.py\<close>\<close>

text \<open>
  The \<^verbatim>\<open>problem\<close> object: the four methods the driver calls.
\<close>

record ('v, 'r) problem =
  problem_f :: "'v \<Rightarrow> real \<Rightarrow> 'r"
  problem_jacobian_solver :: "'v \<Rightarrow> real \<Rightarrow> 'r \<Rightarrow> 'v"
  problem_norm2_r :: "'r \<Rightarrow> real"
  problem_df_dlmbda :: "'v \<Rightarrow> real \<Rightarrow> 'r"

text \<open>
  The keyword arguments of \<^verbatim>\<open>natural\<close>. \<open>None\<close> for \<open>lambda_stepsize_max\<close> and
  \<open>max_steps\<close> is the default \<^verbatim>\<open>float("inf")\<close>; \<open>None\<close> for \<open>milestones\<close> is the
  default \<^verbatim>\<open>None\<close>.
\<close>

record config =
  lambda_stepsize0 :: real
  lambda_stepsize_max :: "real option"
  lambda_stepsize_aggressiveness :: real
  max_newton_steps :: int
  newton_tol :: real
  max_steps :: "real option"
  use_first_order_predictor :: bool
  milestones :: "real list option"

text \<open>
  \<^verbatim>\<open>natural.py\<close> imports \<^verbatim>\<open>newton\<close> from its own package and calls it as
  \<^verbatim>\<open>newton(f, jacobian_solver, norm2_r, u0, tol=..., max_iter=...)\<close>, unpacking the
  result as \<^verbatim>\<open>u, newton_steps\<close> and catching \<^verbatim>\<open>NewtonConvergenceError\<close>. That module
  is not among the sources (the solver of \<^verbatim>\<open>pycont/newton.py\<close> takes no norm and
  returns no count), so the solver is a parameter of the driver's model.
\<close>

type_synonym ('v, 'r) solver =
  "('v \<Rightarrow> 'r) \<Rightarrow> ('v \<Rightarrow> 'r \<Rightarrow> 'v) \<Rightarrow> ('r \<Rightarrow> real) \<Rightarrow> 'v \<Rightarrow> real \<Rightarrow> int \<Rightarrow> error + 'v \<times> int"

text \<open>
  The local variables of \<^verbatim>\<open>natural\<close> that live across the \<^verbatim>\<open>while True\<close> loop:
  \<^verbatim>\<open>lmbda\<close>, \<^verbatim>\<open>u\<close> (\<open>u_acc\<close>), \<^verbatim>\<open>k\<close> (\<open>k_idx\<close>), \<^verbatim>\<open>lambda_stepsize\<close>, and, when
  milestones are given, \<^verbatim>\<open>milestone\<close> with the items the iterator \<^verbatim>\<open>milestones\<close> still
  holds. \<open>calls\<close> records the callback invocations \<^verbatim>\<open>callback(k, lmbda, u)\<close> in order.
\<close>

type_synonym 'v calltrace = "(int \<times> real \<times> 'v) list"

record 'v state =
  lmbda :: real
  u_acc :: 'v
  k_idx :: int
  lambda_stepsize :: real
  milestone :: "(real \<times> real list) option"
  calls :: "'v calltrace"

datatype 'v outcome =
    Running "'v state"            \<comment> \<open>at the top of the \<^verbatim>\<open>while True\<close> loop\<close>
  | Returned "'v calltrace"       \<comment> \<open>the function returned\<close>
  | Raised error "'v calltrace"   \<comment> \<open>an exception left the function\<close>

fun calls_of :: "'v outcome \<Rightarrow> 'v calltrace" where
  "calls_of (Running s) = calls s"
| "calls_of (Returned c) = c"
| "calls_of (Raised e c) = c"

text \<open>\<^verbatim>\<open>k > max_steps\<close> and \<^verbatim>\<open>min(lambda_stepsize, lambda_stepsize_max)\<close>.\<close>

definition exceeds :: "int \<Rightarrow> real option \<Rightarrow> bool" where
  "exceeds k ms = (case ms of None \<Rightarrow> False | Some m \<Rightarrow> real_of_int k > m)"

definition min_inf :: "real \<Rightarrow> real option \<Rightarrow> real" where
  "min_inf x mx = (case mx of None \<Rightarrow> x | Some m \<Rightarrow> min x m)"

text \<open>Lines 84 to 86: the trial parameter value.\<close>

definition trial_lmbda :: "'v state \<Rightarrow> real" where
  "trial_lmbda s =
     (let l = lmbda s + lambda_stepsize s
      in case milestone s of None \<Rightarrow> l | Some (m, rest) \<Rightarrow> min l m)"

text \<open>Lines 87 to 91: the initial guess of the corrector.\<close>

definition predictor ::
  "('v::real_vector, 'r::uminus) problem \<Rightarrow> config \<Rightarrow> 'v state \<Rightarrow> real \<Rightarrow> 'v" where
  "predictor problem cfg s l =
     (if use_first_order_predictor cfg then
        let du_dlmbda = problem_jacobian_solver problem (u_acc s) l
                          (- problem_df_dlmbda problem (u_acc s) l)
        in u_acc s + lambda_stepsize s *\<^sub>R du_dlmbda
      else u_acc s)"

text \<open>Lines 54 to 61 and 95 to 102: the call of the solver at parameter value \<open>l\<close>.\<close>

definition corrector ::
  "('v, 'r) solver \<Rightarrow> ('v, 'r) problem \<Rightarrow> config \<Rightarrow> real \<Rightarrow> 'v \<Rightarrow> error + 'v \<times> int" where
  "corrector newton_fn problem cfg l u0 =
     newton_fn (\<lambda>u. problem_f problem u l)
               (\<lambda>u rhs. problem_jacobian_solver problem u l rhs)
               (problem_norm2_r problem) u0 (newton_tol cfg) (max_newton_steps cfg)"

text \<open>Lines 104 to 108: the handler of \<^verbatim>\<open>NewtonConvergenceError\<close>.\<close>

definition backoff :: "'v state \<Rightarrow> real \<Rightarrow> 'v state" where
  "backoff s l = s\<lparr>lmbda := l - lambda_stepsize s, lambda_stepsize := lambda_stepsize s / 2\<rparr>"

text \<open>
  Lines 118 to 122: the factor the step size is multiplied with, for the aggressiveness
  \<open>a\<close>, \<^verbatim>\<open>max_newton_steps\<close> \<open>m\<close> and \<^verbatim>\<open>newton_steps\<close> \<open>n\<close>.
\<close>

definition growth_factor :: "real \<Rightarrow> int \<Rightarrow> int \<Rightarrow> real" where
  "growth_factor a m n = 1 + a * (real_of_int (m - n) / real_of_int (m - 1)) ^ 2"

text \<open>
  Lines 110 to 123: what follows a successful corrector. The division of line 121 is
  between Python integers and raises \<^verbatim>\<open>ZeroDivisionError\<close> when
  \<^verbatim>\<open>max_newton_steps\<close> is 1.
\<close>

definition accept :: "config \<Rightarrow> 'v state \<Rightarrow> real \<Rightarrow> 'v \<Rightarrow> int \<Rightarrow> 'v outcome" where
  "accept cfg s l u newton_steps =
     (let s1 = s\<lparr>lmbda := l, u_acc := u, k_idx := k_idx s + 1,
                 calls := calls s @ [(k_idx s, l, u)]\<rparr>
      in case milestone s of
           Some (m, rest) \<Rightarrow>
             if l = m then
               (case rest of
                  [] \<Rightarrow> Returned (calls s1)
                | m' # rest' \<Rightarrow> Running (s1\<lparr>milestone := Some (m', rest')\<rparr>))
             else if max_newton_steps cfg - 1 = 0 then Raised ZeroDivisionError (calls s1)
             else Running (s1\<lparr>lambda_stepsize :=
                    min_inf (lambda_stepsize s *
                       growth_factor (lambda_stepsize_aggressiveness cfg)
                         (max_newton_steps cfg) newton_steps)
                      (lambda_stepsize_max cfg)\<rparr>)
         | None \<Rightarrow>
             if max_newton_steps cfg - 1 = 0 then Raised ZeroDivisionError (calls s1)
             else Running (s1\<lparr>lambda_stepsize :=
                    min_inf (lambda_stepsize s *
                       growth_factor (lambda_stepsize_aggressiveness cfg)
                         (max_newton_steps cfg) newton_steps)
                      (lambda_stepsize_max cfg)\<rparr>))"

text \<open>One pass through the body of the \<^verbatim>\<open>while True\<close> loop (lines 74 to 123).\<close>

definition natural_step ::
  "('v::real_vector, 'r::uminus) solver \<Rightarrow> ('v, 'r) problem \<Rightarrow> config \<Rightarrow> 'v state
     \<Rightarrow> 'v outcome" where
  "natural_step newton_fn problem cfg s =
     (if exceeds (k_idx s) (max_steps cfg) then Returned (calls s)
      else
        let l = trial_lmbda s;
            u0 = predictor problem cfg s l
        in case corrector newton_fn problem cfg l u0 of
             Inl (NewtonConvergenceError n) \<Rightarrow> Running (backoff s l)
           | Inl e \<Rightarrow> Raised e (calls s)
           | Inr (u, newton_steps) \<Rightarrow> accept cfg s l u newton_steps)"

text \<open>
  Lines 48 to 71: the initial solve, the first callback and the first milestone. An
  empty iterator makes \<^verbatim>\<open>next(milestones)\<close> raise \<^verbatim>\<open>StopIteration\<close>.
\<close>

definition natural_init ::
  "('v::real_vector, 'r::uminus) solver \<Rightarrow> ('v, 'r) problem \<Rightarrow> 'v \<Rightarrow> real \<Rightarrow> config
     \<Rightarrow> 'v outcome" where
  "natural_init newton_fn problem u0 lambda0 cfg =
     (case corrector newton_fn problem cfg lambda0 u0 of
        Inl e \<Rightarrow> Raised e []
      | Inr (u, _) \<Rightarrow>
          let s = \<lparr>lmbda = lambda0, u_acc = u, k_idx = 1,
                   lambda_stepsize = lambda_stepsize0 cfg, milestone = None,
                   calls = [(0, lambda0, u)]\<rparr>
          in case milestones cfg of
               None \<Rightarrow> Running s
             | Some [] \<Rightarrow> Raised StopIteration (calls s)
             | Some (m # rest) \<Rightarrow> Running (s\<lparr>milestone := Some (m, rest)\<rparr>))"

text \<open>
  The loop may run forever, so a run is observed after a number of passes:
  \<open>natural_loop \<dots> n s\<close> is where the driver stands after at most \<open>n\<close> passes from \<open>s\<close>,
  and \<open>natural \<dots> n\<close> is the whole call observed after \<open>n\<close> passes.
\<close>

fun natural_loop ::
  "('v::real_vector, 'r::uminus) solver \<Rightarrow> ('v, 'r) problem \<Rightarrow> config \<Rightarrow> nat \<Rightarrow> 'v state
     \<Rightarrow> 'v outcome" where
  "natural_loop newton_fn problem cfg 0 s = Running s"
| "natural_loop newton_fn problem cfg (Suc n) s =
     (case natural_loop newton_fn problem cfg n s of
        Running s' \<Rightarrow> natural_step newton_fn problem cfg s'
      | out \<Rightarrow> out)"

definition natural ::
  "('v::real_vector, 'r::uminus) solver \<Rightarrow> ('v, 'r) problem \<Rightarrow> 'v \<Rightarrow> real \<Rightarrow> config \<Rightarrow> nat
     \<Rightarrow> 'v outcome" where
  "natural newton_fn problem u0 lambda0 cfg n =
     (case natural_init newton_fn problem u0 lambda0 cfg of
        Running s \<Rightarrow> natural_loop newton_fn problem cfg n s
      | out \<Rightarrow> out)"

section \<open>The solver the driver is run with\<close>

text \<open>
  Modelled from the spec: the module \<^verbatim>\<open>pacopy/newton.py\<close>, which \<^verbatim>\<open>natural.py\<close>
  imports, is missing from the sources. Section 4.1 of the specification gives its
  contract \<^verbatim>\<open>solve(residual_fn, linear_solve_fn, norm_fn, u0, tol, max_iter)\<close>: evaluate
  the residual at \<^verbatim>\<open>u0\<close>; while the norm is not below \<^verbatim>\<open>tol\<close> and the iteration count
  is below \<^verbatim>\<open>max_iter\<close>, add \<^verbatim>\<open>linear_solve_fn(u, -residual_fn(u))\<close> to \<^verbatim>\<open>u\<close> and count
  the iteration; return the vector and the count when the norm is below \<^verbatim>\<open>tol\<close>,
  signal the failure with the count otherwise. It is used to run the driver on
  concrete problems only.
\<close>

function newton_solve_loop ::
  "('v::plus \<Rightarrow> 'r::uminus) \<Rightarrow> ('v \<Rightarrow> 'r \<Rightarrow> 'v) \<Rightarrow> ('r \<Rightarrow> real) \<Rightarrow> real \<Rightarrow> int \<Rightarrow> 'v \<Rightarrow> int
     \<Rightarrow> error + 'v \<times> int" where
  "newton_solve_loop residual_fn linear_solve_fn norm_fn tol max_iter u k =
     (if \<not> norm_fn (residual_fn u) < tol \<and> k < max_iter then
        newton_solve_loop residual_fn linear_solve_fn norm_fn tol max_iter
          (u + linear_solve_fn u (- residual_fn u)) (k + 1)
      else if norm_fn (residual_fn u) < tol then Inr (u, k)
      else Inl (NewtonConvergenceError k))"
  by pat_completeness auto
termination
  by (relation "measure (\<lambda>(rf, ls, nf, tol, max_iter, u, k). nat (max_iter - k))") auto

declare newton_solve_loop.simps [simp del]

definition newton_solve :: "('v::plus, 'r::uminus) solver" where
  "newton_solve residual_fn linear_solve_fn norm_fn u0 tol max_iter =
     newton_solve_loop residual_fn linear_solve_fn norm_fn tol max_iter u0 0"

section \<open>Notions used in the statements\<close>

text \<open>The parameter value a callback invocation received.\<close>

definition call_lmbda :: "int \<times> real \<times> 'v \<Rightarrow> real" where
  "call_lmbda c = fst (snd c)"

text \<open>A step size that does not exceed \<^verbatim>\<open>lambda_stepsize_max\<close>.\<close>

definition within_max :: "real \<Rightarrow> real option \<Rightarrow> bool" where
  "within_max x mx = (case mx of None \<Rightarrow> True | Some m \<Rightarrow> x \<le> m)"

text \<open>The residual norm of \<open>u\<close> at the parameter value \<open>l\<close>, as the solver measures it.\<close>

definition residual_norm :: "('v, 'r) problem \<Rightarrow> 'v \<Rightarrow> real \<Rightarrow> real" where
  "residual_norm problem u l = problem_norm2_r problem (problem_f problem u l)"

text \<open>
  No milestone is stepped over: going through the accepted parameter values in order
  (\<open>seen\<close> are the earlier ones), every milestone below an accepted value has been an
  accepted value before.
\<close>

fun not_skipped :: "real list \<Rightarrow> real list \<Rightarrow> real list \<Rightarrow> bool" where
  "not_skipped ms seen [] = True"
| "not_skipped ms seen (l # ls) =
     ((\<forall>m\<in>set ms. m < l \<longrightarrow> m \<in> set seen) \<and> not_skipped ms (seen @ [l]) ls)"

text \<open>
  The loop invariant behind it, for the milestone list \<open>ms\<close> the driver was called with:
  the milestones before the pending one have all been accepted values, and no accepted
  value lies above the pending one.
\<close>

definition ms_inv :: "real list \<Rightarrow> 'v state \<Rightarrow> bool" where
  "ms_inv ms s =
     (\<exists>hit m rest. milestone s = Some (m, rest) \<and> ms = hit @ m # rest \<and>
        set hit \<subseteq> call_lmbda ` set (calls s) \<and> (\<forall>c\<in>set (calls s). call_lmbda c \<le> m))"

definition ms_ok :: "real list \<Rightarrow> 'v outcome \<Rightarrow> bool" where
  "ms_ok ms out =
     (not_skipped ms [] (map call_lmbda (calls_of out)) \<and>
      (case out of Running s \<Rightarrow> ms_inv ms s | _ \<Rightarrow> True))"

section \<open>Concrete inputs\<close>

text \<open>The default keyword arguments of \<^verbatim>\<open>natural\<close> (lines 11 to 19).\<close>

definition default_config :: config where
  "default_config =
     \<lparr>lambda_stepsize0 = 1 / 10, lambda_stepsize_max = None,
      lambda_stepsize_aggressiveness = 2, max_newton_steps = 5,
      newton_tol = 1 / 10 ^ 12, max_steps = None,
      use_first_order_predictor = True, milestones = None\<rparr>"

text \<open>
  The scalar problem \<open>F(u, \<lambda>) = u - \<lambda>\<close> with the exact Jacobian solve, the squared
  residual as norm and \<open>dF/d\<lambda> = -1\<close>.
\<close>

definition linear_problem :: "(real, real) problem" where
  "linear_problem =
     \<lparr>problem_f = (\<lambda>u l. u - l),
      problem_jacobian_solver = (\<lambda>u l rhs. rhs),
      problem_norm2_r = (\<lambda>r. r * r),
      problem_df_dlmbda = (\<lambda>u l. - 1)\<rparr>"

text \<open>
  The same problem with a solution curve that ends before \<open>\<lambda> = 1/2\<close>: from there on
  the residual is 1 whatever \<open>u\<close> is, so no solver can converge.
\<close>

definition capped_problem :: "(real, real) problem" where
  "capped_problem =
     \<lparr>problem_f = (\<lambda>u l. if l < 1 / 2 then u - l else 1),
      problem_jacobian_solver = (\<lambda>u l rhs. rhs),
      problem_norm2_r = (\<lambda>r. r * r),
      problem_df_dlmbda = (\<lambda>u l. if l < 1 / 2 then - 1 else 0)\<rparr>"

text \<open>
  A run towards the milestone \<open>1/2\<close> with initial step size \<open>3/10\<close>, started at
  \<open>\<lambda>0 = 2/5\<close>; everything else is the default.
\<close>

definition milestone_config :: config where
  "milestone_config =
     default_config\<lparr>lambda_stepsize0 := 3 / 10, milestones := Some [1 / 2]\<rparr>"

text \<open>The driver's variables after the initial solve of that run, and one pass later.\<close>

definition accepted_state :: "real state" where
  "accepted_state =
     \<lparr>lmbda = 2 / 5, u_acc = 2 / 5, k_idx = 1, lambda_stepsize = 3 / 10,
      milestone = Some (1 / 2, []), calls = [(0, 2 / 5, 2 / 5)]\<rparr>"

definition backed_off_state :: "real state" where
  "backed_off_state =
     \<lparr>lmbda = 1 / 5, u_acc = 2 / 5, k_idx = 1, lambda_stepsize = 3 / 20,
      milestone = Some (1 / 2, []), calls = [(0, 2 / 5, 2 / 5)]\<rparr>"

text \<open>The milestones \<open>[0.5, 1.0]\<close> with initial step size \<open>0.3\<close>.\<close>

definition two_milestones_config :: config where
  "two_milestones_config =
     default_config\<lparr>lambda_stepsize0 := 3 / 10, milestones := Some [1 / 2, 1]\<rparr>"

text \<open>An empty milestone sequence.\<close>

definition empty_milestones_config :: config where
  "empty_milestones_config = default_config\<lparr>milestones := Some []\<rparr>"

text \<open>A maximum step size of \<open>1/2\<close>, with the default and with a larger initial step size.\<close>

definition bounded_config :: config where
  "bounded_config = default_config\<lparr>lambda_stepsize_max := Some (1 / 2)\<rparr>"

definition oversized_config :: config where
  "oversized_config = bounded_config\<lparr>lambda_stepsize0 := 1\<rparr>"

text \<open>A negative aggressiveness.\<close>

definition shrinking_config :: config where
  "shrinking_config = default_config\<lparr>lambda_stepsize_aggressiveness := - 2\<rparr>"

text \<open>The driver's variables after the initial solve of the linear problem from \<open>0\<close>.\<close>

definition start_state :: "real state" where
  "start_state =
     \<lparr>lmbda = 0, u_acc = 0, k_idx = 1, lambda_stepsize = 1 / 10,
      milestone = None, calls = [(0, 0, 0)]\<rparr>"

text \<open>The residual \<open>u - 1\<close> and the exact Jacobian solve, for \<^verbatim>\<open>pycont/newton.py\<close>.\<close>

definition shifted_f :: "real \<Rightarrow> real" where
  "shifted_f u = u - 1"

definition exact_solver :: "real \<Rightarrow> real \<Rightarrow> real" where
  "exact_solver u rhs = rhs"

section \<open>Frame property of the Newton solver\<close>

lemma newton_loop_frame:
  "length h0 \<le> a \<Longrightarrow> take (length h0) h = h0 \<Longrightarrow>
   take (length h0) (fst (newton_loop f js tol max_iter a h fu nrm k)) = h0"
proof (induction f js tol max_iter a h fu nrm k rule: newton_loop.induct)
  case (1 f js tol max_iter a h fu nrm k)
  show ?case
  proof (cases "k < max_iter \<and> \<not> nrm < tol")
    case True
    have "take (length h0) (h[a := h ! a + js (h ! a) (- fu)]) = h0"
      using "1.prems" by simp
    with True "1.IH" "1.prems"(1) show ?thesis
      by (subst newton_loop.simps) (simp add: Let_def)
  next
    case False
    then show ?thesis
      using "1.prems"(2) by (subst newton_loop.simps) auto
  qed
qed

text \<open>
  C9. The call leaves the argument array untouched: every array that existed before the
  call, and so the one \<open>u0\<close> refers to, holds the same value afterwards, whether the call
  returns or raises.
\<close>

theorem newton_leaves_u0_unmodified:
  "take (length h) (snd (newton f jacobian_solver u0 tol max_iter h)) = h \<and>
   (u0 < length h \<longrightarrow> snd (newton f jacobian_solver u0 tol max_iter h) ! u0 = h ! u0)"
proof -
  let ?h1 = "h @ [h ! u0]"
  let ?r = "newton_loop f jacobian_solver tol max_iter (length h) ?h1
              (f (?h1 ! length h)) (norm (f (?h1 ! length h))) 0"
  have fr: "take (length h) (fst ?r) = h"
    by (rule newton_loop_frame) simp_all
  have s: "snd (newton f jacobian_solver u0 tol max_iter h) = fst ?r"
    by (simp add: newton_def Let_def split: prod.splits)
  have t: "take (length h) (snd (newton f jacobian_solver u0 tol max_iter h)) = h"
    using fr s by simp
  have "u0 < length h \<Longrightarrow> snd (newton f jacobian_solver u0 tol max_iter h) ! u0 = h ! u0"
  proof -
    assume lt: "u0 < length h"
    have "take (length h) (snd (newton f jacobian_solver u0 tol max_iter h)) ! u0
            = snd (newton f jacobian_solver u0 tol max_iter h) ! u0"
      using lt by simp
    with t show ?thesis by simp
  qed
  with t show ?thesis by blast
qed

theorem newton_leaves_u0_unmodified_witness:
  "take (length [0::real]) (snd (newton shifted_f exact_solver 0 (1 / 10 ^ 10) 20 [0])) = [0] \<and>
   (0 < length [0::real] \<and>
    snd (newton shifted_f exact_solver 0 (1 / 10 ^ 10) 20 [0]) ! 0 = [0::real] ! 0) \<and>
   newton shifted_f exact_solver 0 (1 / 10 ^ 10) 20 [0] = (Inr 1, [0, 1])"
  using newton_leaves_u0_unmodified [of "[0::real]" shifted_f exact_solver 0 "1 / 10 ^ 10" 20]
  by (simp add: newton_def newton_loop.simps Let_def shifted_f_def exact_solver_def)

section \<open>Success and failure of the Newton solver\<close>

text \<open>
  A call that returns has a result with residual norm below \<^verbatim>\<open>tol\<close>, reached in fewer
  than \<^verbatim>\<open>max_iter\<close> corrections; a call that raises reports \<^verbatim>\<open>max_iter\<close> steps (for a
  non-negative \<^verbatim>\<open>max_iter\<close>).
\<close>

lemma newton_loop_length:
  "length (fst (newton_loop f js tol max_iter a h fu nrm k)) = length h"
proof (induction f js tol max_iter a h fu nrm k rule: newton_loop.induct)
  case (1 f js tol max_iter a h fu nrm k)
  show ?case
  proof (cases "k < max_iter \<and> \<not> nrm < tol")
    case True
    with "1.IH" show ?thesis
      by (subst newton_loop.simps) (simp add: Let_def)
  next
    case False
    then show ?thesis
      by (subst newton_loop.simps) auto
  qed
qed

lemma newton_loop_converged:
  assumes "newton_loop f js tol max_iter a h fu nrm k = (h', k', True)"
    and "nrm = norm (f (h ! a))"
  shows "norm (f (h' ! a)) < tol \<and> k' < max_iter"
  using assms
proof (induction f js tol max_iter a h fu nrm k rule: newton_loop.induct)
  case (1 f js tol max_iter a h fu nrm k)
  show ?case
  proof (cases "k < max_iter \<and> \<not> nrm < tol")
    case True
    let ?h = "h[a := h ! a + js (h ! a) (- fu)]"
    from True "1.prems"(1)
    have "newton_loop f js tol max_iter a ?h (f (?h ! a)) (norm (f (?h ! a))) (k + 1) = (h', k', True)"
      by (subst (asm) newton_loop.simps) (simp add: Let_def)
    with True "1.IH" show ?thesis by (simp add: Let_def)
  next
    case False
    with "1.prems" show ?thesis
      by (subst (asm) newton_loop.simps) (auto split: if_splits)
  qed
qed

lemma newton_loop_failure_count:
  assumes "newton_loop f js tol max_iter a h fu nrm k = (h', k', False)" and "k \<le> max_iter"
  shows "k' = max_iter"
  using assms
proof (induction f js tol max_iter a h fu nrm k rule: newton_loop.induct)
  case (1 f js tol max_iter a h fu nrm k)
  show ?case
  proof (cases "k < max_iter \<and> \<not> nrm < tol")
    case True
    let ?h = "h[a := h ! a + js (h ! a) (- fu)]"
    from True "1.prems"(1)
    have "newton_loop f js tol max_iter a ?h (f (?h ! a)) (norm (f (?h ! a))) (k + 1) = (h', k', False)"
      by (subst (asm) newton_loop.simps) (simp add: Let_def)
    with True "1.IH" show ?thesis by (simp add: Let_def)
  next
    case False
    with "1.prems" show ?thesis
      by (subst (asm) newton_loop.simps) (auto split: if_splits)
  qed
qed


lemma newton_success_converged:
  assumes "newton f js u0 tol max_iter h = (Inr a, h')"
  shows "norm (f (h' ! a)) < tol"
proof -
  let ?h1 = "h @ [h ! u0]"
  obtain h2 k c where r: "newton_loop f js tol max_iter (length h) ?h1
      (f (?h1 ! length h)) (norm (f (?h1 ! length h))) 0 = (h2, k, c)"
    by (metis prod_cases3)
  with assms have c: "c" and a: "a = length h" and h': "h' = h2"
    by (auto simp: newton_def Let_def split: if_splits)
  from newton_loop_converged [OF r [unfolded c [THEN eqTrueI]]] a h' show ?thesis
    by simp
qed

lemma newton_failure_count:
  assumes "newton f js u0 tol max_iter h = (Inl e, h')" and "0 \<le> max_iter"
  shows "e = NewtonConvergenceError max_iter"
proof -
  let ?h1 = "h @ [h ! u0]"
  obtain h2 k c where r: "newton_loop f js tol max_iter (length h) ?h1
      (f (?h1 ! length h)) (norm (f (?h1 ! length h))) 0 = (h2, k, c)"
    by (metis prod_cases3)
  with assms(1) have c: "\<not> c" and e: "e = NewtonConvergenceError k"
    by (auto simp: newton_def Let_def split: if_splits)
  from c r have "newton_loop f js tol max_iter (length h) ?h1
      (f (?h1 ! length h)) (norm (f (?h1 ! length h))) 0 = (h2, k, False)" by simp
  from newton_loop_failure_count [OF this assms(2)] e show ?thesis by simp
qed

section \<open>What the Newton solver returns\<close>




text \<open>
  C2. The solver is to fail exactly when \<^verbatim>\<open>max_iter\<close> is used up without the residual
  norm falling below \<^verbatim>\<open>tol\<close>. It fails on an input that is converged already when
  \<^verbatim>\<open>max_iter\<close> is 0, and it fails when the last permitted correction reaches the root.
\<close>

theorem newton_fails_although_converged:
  "norm (shifted_f 1) < 1 / 10 ^ 10 \<and>
   newton shifted_f exact_solver 0 (1 / 10 ^ 10) 0 [1]
     = (Inl (NewtonConvergenceError 0), [1, 1]) \<and>
   newton shifted_f exact_solver 0 (1 / 10 ^ 10) 1 [0]
     = (Inl (NewtonConvergenceError 1), [0, 1])"
  by (simp add: newton_def newton_loop.simps Let_def shifted_f_def exact_solver_def)

section \<open>Evaluating concrete runs\<close>

lemmas run_defs = natural_def natural_init_def natural_step_def corrector_def newton_solve_def
  trial_lmbda_def predictor_def accept_def backoff_def growth_factor_def exceeds_def min_inf_def
  Let_def default_config_def milestone_config_def two_milestones_config_def
  empty_milestones_config_def bounded_config_def oversized_config_def shrinking_config_def
  linear_problem_def capped_problem_def accepted_state_def backed_off_state_def
  start_state_def newton_solve_loop.simps

section \<open>The loop, pass by pass\<close>

lemma natural_loop_invariant:
  assumes "P s0"
    and "\<And>s s'. P s \<Longrightarrow> natural_step newton_fn problem cfg s = Running s' \<Longrightarrow> P s'"
  shows "natural_loop newton_fn problem cfg n s0 = Running s \<Longrightarrow> P s"
proof (induction n arbitrary: s)
  case 0
  with assms(1) show ?case by simp
next
  case (Suc n)
  then show ?case
    by (cases "natural_loop newton_fn problem cfg n s0") (auto intro: assms(2))
qed

lemma natural_step_unfold:
  "natural_step newton_fn problem cfg s =
     (if exceeds (k_idx s) (max_steps cfg) then Returned (calls s)
      else case corrector newton_fn problem cfg (trial_lmbda s)
                  (predictor problem cfg s (trial_lmbda s)) of
             Inl (NewtonConvergenceError n) \<Rightarrow> Running (backoff s (trial_lmbda s))
           | Inl e \<Rightarrow> Raised e (calls s)
           | Inr (u, newton_steps) \<Rightarrow> accept cfg s (trial_lmbda s) u newton_steps)"
  by (simp add: natural_step_def Let_def)

lemma natural_step_Running_cases:
  assumes "natural_step newton_fn problem cfg s = Running s'"
  shows "s' = backoff s (trial_lmbda s) \<or>
         (\<exists>u n. accept cfg s (trial_lmbda s) u n = Running s')"
proof (cases "corrector newton_fn problem cfg (trial_lmbda s)
                (predictor problem cfg s (trial_lmbda s))")
  case (Inl e)
  with assms show ?thesis
    by (cases e) (simp_all add: natural_step_unfold split: if_splits)
next
  case (Inr p)
  with assms show ?thesis
    by (cases p) (auto simp: natural_step_unfold split: if_splits)
qed

lemma accept_stepsize:
  assumes "accept cfg s l u n = Running s'"
  shows "lambda_stepsize s' = lambda_stepsize s \<or>
         lambda_stepsize s' = min_inf (lambda_stepsize s *
             growth_factor (lambda_stepsize_aggressiveness cfg) (max_newton_steps cfg) n)
             (lambda_stepsize_max cfg)"
  using assms
  by (auto simp: accept_def Let_def split: option.splits if_splits list.splits)

lemma growth_factor_ge_1: "0 \<le> a \<Longrightarrow> 1 \<le> growth_factor a m n"
  by (simp add: growth_factor_def)


lemma natural_Suc:
  assumes "natural newton_fn problem u0 lambda0 cfg n = Running s"
  shows "natural newton_fn problem u0 lambda0 cfg (Suc n) = natural_step newton_fn problem cfg s"
  using assms by (auto simp: natural_def split: outcome.splits)

lemma calls_of_accept:
  "calls_of (accept cfg s l u n) = calls s @ [(k_idx s, l, u)]"
  by (simp add: accept_def Let_def split: option.splits list.splits)

section \<open>The step size\<close>

lemma growth_factor_antimono:
  assumes "0 \<le> a" "2 \<le> m" "n1 \<le> n2" "n2 \<le> m"
  shows "growth_factor a m n2 \<le> growth_factor a m n1"
proof -
  have d: "0 < real_of_int (m - 1)" using assms by simp
  have "real_of_int (m - n2) \<le> real_of_int (m - n1)" using assms by simp
  moreover have "0 \<le> real_of_int (m - n2)" using assms by simp
  ultimately have "real_of_int (m - n2) / real_of_int (m - 1)
                     \<le> real_of_int (m - n1) / real_of_int (m - 1)"
    and "0 \<le> real_of_int (m - n2) / real_of_int (m - 1)"
    using d by (simp_all add: divide_right_mono)
  then have "(real_of_int (m - n2) / real_of_int (m - 1)) ^ 2
               \<le> (real_of_int (m - n1) / real_of_int (m - 1)) ^ 2"
    by (rule power_mono)
  with assms(1) show ?thesis by (simp add: growth_factor_def mult_left_mono)
qed

lemma stepsize_inv_step:
  assumes mx: "within_max 0 (lambda_stepsize_max cfg)"
    and ok: "within_max (lambda_stepsize s) (lambda_stepsize_max cfg) \<and>
             (0 \<le> lambda_stepsize_aggressiveness cfg \<longrightarrow> 0 \<le> lambda_stepsize s)"
    and st: "natural_step newton_fn problem cfg s = Running s'"
  shows "within_max (lambda_stepsize s') (lambda_stepsize_max cfg) \<and>
         (0 \<le> lambda_stepsize_aggressiveness cfg \<longrightarrow> 0 \<le> lambda_stepsize s')"
proof -
  from natural_step_Running_cases [OF st] show ?thesis
  proof (elim disjE exE)
    assume "s' = backoff s (trial_lmbda s)"
    with ok mx show ?thesis
      by (auto simp: backoff_def within_max_def split: option.splits)
  next
    fix u n
    assume acc: "accept cfg s (trial_lmbda s) u n = Running s'"
    have g: "0 \<le> lambda_stepsize s *
               growth_factor (lambda_stepsize_aggressiveness cfg) (max_newton_steps cfg) n"
      if "0 \<le> lambda_stepsize_aggressiveness cfg"
      using growth_factor_ge_1 [OF that, of "max_newton_steps cfg" n] ok that
      by simp
    from accept_stepsize [OF acc] show ?thesis
    proof
      assume "lambda_stepsize s' = lambda_stepsize s"
      with ok show ?thesis by simp
    next
      assume "lambda_stepsize s' = min_inf (lambda_stepsize s *
               growth_factor (lambda_stepsize_aggressiveness cfg) (max_newton_steps cfg) n)
               (lambda_stepsize_max cfg)"
      with g mx show ?thesis
        by (auto simp: min_inf_def within_max_def split: option.splits)
    qed
  qed
qed

text \<open>
  C5 (as amended). In a run started with a strictly positive initial step size that does
  not exceed \<^verbatim>\<open>lambda_stepsize_max\<close>, the step size a predictor uses does not exceed
  \<^verbatim>\<open>lambda_stepsize_max\<close>, whatever the aggressiveness is; with a non-negative
  aggressiveness it is never negative. This holds of the driver's variables at the top of
  the loop after any number of passes. Strict positivity is not part of the statement:
  \<^verbatim>\<open>lambda_stepsize /= 2\<close> on floats reaches \<open>0.0\<close> after enough failed correctors.
\<close>

theorem stepsize_bounded_and_nonnegative:
  assumes "0 < lambda_stepsize0 cfg"
    and "within_max (lambda_stepsize0 cfg) (lambda_stepsize_max cfg)"
    and "natural newton_fn problem u0 lambda0 cfg n = Running s"
  shows "within_max (lambda_stepsize s) (lambda_stepsize_max cfg) \<and>
         (0 \<le> lambda_stepsize_aggressiveness cfg \<longrightarrow> 0 \<le> lambda_stepsize s)"
proof -
  from assms(3) obtain s0 where i: "natural_init newton_fn problem u0 lambda0 cfg = Running s0"
    and l: "natural_loop newton_fn problem cfg n s0 = Running s"
    by (auto simp: natural_def split: outcome.splits)
  from i have "lambda_stepsize s0 = lambda_stepsize0 cfg"
    by (auto simp: natural_init_def Let_def split: sum.splits prod.splits option.splits list.splits)
  with assms(1,2) have s0: "within_max (lambda_stepsize s0) (lambda_stepsize_max cfg) \<and>
      (0 \<le> lambda_stepsize_aggressiveness cfg \<longrightarrow> 0 \<le> lambda_stepsize s0)"
    by simp
  from assms(1,2) have mx: "within_max 0 (lambda_stepsize_max cfg)"
    by (auto simp: within_max_def split: option.splits)
  from s0 show ?thesis
    by (rule natural_loop_invariant
          [where P = "\<lambda>s. within_max (lambda_stepsize s) (lambda_stepsize_max cfg) \<and>
                 (0 \<le> lambda_stepsize_aggressiveness cfg \<longrightarrow> 0 \<le> lambda_stepsize s)",
           OF _ _ l])
       (rule stepsize_inv_step [OF mx])
qed

text \<open>The default-sized run with a maximum of \<open>1/2\<close>: two passes, the second growth clamped.\<close>

theorem stepsize_bounded_and_nonnegative_witness:
  "0 < lambda_stepsize0 bounded_config \<and>
   within_max (lambda_stepsize0 bounded_config) (lambda_stepsize_max bounded_config) \<and>
   0 \<le> lambda_stepsize_aggressiveness bounded_config \<and>
   natural newton_solve linear_problem 0 0 bounded_config 2
     = Running \<lparr>lmbda = 41 / 80, u_acc = 41 / 80, k_idx = 3, lambda_stepsize = 1 / 2,
                milestone = None,
                calls = [(0, 0, 0), (1, 1 / 10, 1 / 10), (2, 41 / 80, 41 / 80)]\<rparr> \<and>
   within_max (1 / 2) (lambda_stepsize_max bounded_config) \<and> (0 :: real) \<le> 1 / 2"
proof -
  have h1: "0 < lambda_stepsize0 bounded_config"
    by (simp add: bounded_config_def default_config_def)
  have h2: "within_max (lambda_stepsize0 bounded_config) (lambda_stepsize_max bounded_config)"
    by (simp add: bounded_config_def default_config_def within_max_def)
  have h3: "0 \<le> lambda_stepsize_aggressiveness bounded_config"
    by (simp add: bounded_config_def default_config_def)
  have r: "natural newton_solve linear_problem 0 0 bounded_config 2
     = Running \<lparr>lmbda = 41 / 80, u_acc = 41 / 80, k_idx = 3, lambda_stepsize = 1 / 2,
                milestone = None,
                calls = [(0, 0, 0), (1, 1 / 10, 1 / 10), (2, 41 / 80, 41 / 80)]\<rparr>"
    by (simp add: run_defs eval_nat_numeral)
  from stepsize_bounded_and_nonnegative [OF h1 h2 r] h1 h2 h3 r show ?thesis by simp
qed

text \<open>
  C5 as stated fails: the initial step size is used as it is, also when it exceeds
  \<^verbatim>\<open>lambda_stepsize_max\<close> (only a grown step size is clamped), so the first predictor
  steps from \<open>0\<close> to \<open>1\<close> with a maximum of \<open>1/2\<close>; and a negative aggressiveness makes
  the step size negative.
\<close>

theorem stepsize_exceeds_max_counterexample:
  "lambda_stepsize_max oversized_config = Some (1 / 2) \<and>
   0 < lambda_stepsize0 oversized_config \<and>
   natural newton_solve linear_problem 0 0 oversized_config 0
     = Running \<lparr>lmbda = 0, u_acc = 0, k_idx = 1, lambda_stepsize = 1, milestone = None,
                calls = [(0, 0, 0)]\<rparr> \<and>
   calls_of (natural newton_solve linear_problem 0 0 oversized_config 1)
     = [(0, 0, 0), (1, 1, 1)] \<and>
   \<not> within_max 1 (lambda_stepsize_max oversized_config) \<and>
   0 < lambda_stepsize0 shrinking_config \<and>
   natural newton_solve linear_problem 0 0 shrinking_config 1
     = Running \<lparr>lmbda = 1 / 10, u_acc = 1 / 10, k_idx = 2, lambda_stepsize = - (17 / 80),
                milestone = None, calls = [(0, 0, 0), (1, 1 / 10, 1 / 10)]\<rparr>"
  by (simp add: run_defs within_max_def eval_nat_numeral)

text \<open>
  C8 (as amended). After an accepted step that does not land on the pending milestone,
  with \<^verbatim>\<open>max_newton_steps\<close> at least 2, the new step size is
  \<open>min(\<Delta>\<lambda> \<cdot> (1 + a \<cdot> ((max_newton_steps - n) / (max_newton_steps - 1))\<^sup>2), lambda_stepsize_max)\<close>;
  for a non-negative aggressiveness \<open>a\<close> the factor does not increase with the number
  \<open>n\<close> of Newton iterations, up to \<^verbatim>\<open>max_newton_steps\<close>. A strict decrease is not part
  of the statement: on floats the factor is 1 for every \<open>n\<close> once \<open>a\<close> is small enough.
\<close>

theorem stepsize_growth_rule:
  assumes "\<not> exceeds (k_idx s) (max_steps cfg)"
    and "corrector newton_fn problem cfg (trial_lmbda s)
           (predictor problem cfg s (trial_lmbda s)) = Inr (u, n)"
    and "2 \<le> max_newton_steps cfg"
    and "\<forall>m rest. milestone s = Some (m, rest) \<longrightarrow> trial_lmbda s \<noteq> m"
  shows "(\<exists>s'. natural_step newton_fn problem cfg s = Running s' \<and>
            lambda_stepsize s' =
              min_inf (lambda_stepsize s *
                         (1 + lambda_stepsize_aggressiveness cfg *
                              (real_of_int (max_newton_steps cfg - n)
                                 / real_of_int (max_newton_steps cfg - 1)) ^ 2))
                      (lambda_stepsize_max cfg)) \<and>
         (0 \<le> lambda_stepsize_aggressiveness cfg \<longrightarrow>
            (\<forall>n1 n2. n1 \<le> n2 \<and> n2 \<le> max_newton_steps cfg \<longrightarrow>
               growth_factor (lambda_stepsize_aggressiveness cfg) (max_newton_steps cfg) n2
                 \<le> growth_factor (lambda_stepsize_aggressiveness cfg) (max_newton_steps cfg) n1))"
proof (intro conjI impI allI)
  show "\<exists>s'. natural_step newton_fn problem cfg s = Running s' \<and>
            lambda_stepsize s' =
              min_inf (lambda_stepsize s *
                         (1 + lambda_stepsize_aggressiveness cfg *
                              (real_of_int (max_newton_steps cfg - n)
                                 / real_of_int (max_newton_steps cfg - 1)) ^ 2))
                      (lambda_stepsize_max cfg)"
    using assms
    by (auto simp: natural_step_unfold accept_def growth_factor_def Let_def split: option.splits)
next
  fix n1 n2
  assume "0 \<le> lambda_stepsize_aggressiveness cfg" and "n1 \<le> n2 \<and> n2 \<le> max_newton_steps cfg"
  with assms(3) show "growth_factor (lambda_stepsize_aggressiveness cfg) (max_newton_steps cfg) n2
       \<le> growth_factor (lambda_stepsize_aggressiveness cfg) (max_newton_steps cfg) n1"
    by (intro growth_factor_antimono) simp_all
qed

text \<open>The first pass of the default run on the linear problem.\<close>

theorem stepsize_growth_rule_witness:
  "\<not> exceeds (k_idx start_state) (max_steps default_config) \<and>
   corrector newton_solve linear_problem default_config (trial_lmbda start_state)
     (predictor linear_problem default_config start_state (trial_lmbda start_state))
       = Inr (1 / 10, 0) \<and>
   2 \<le> max_newton_steps default_config \<and>
   milestone start_state = None \<and>
   0 \<le> lambda_stepsize_aggressiveness default_config \<and>
   natural_step newton_solve linear_problem default_config start_state
     = Running \<lparr>lmbda = 1 / 10, u_acc = 1 / 10, k_idx = 2, lambda_stepsize = 33 / 80,
                milestone = None, calls = [(0, 0, 0), (1, 1 / 10, 1 / 10)]\<rparr> \<and>
   growth_factor 2 5 1 \<le> growth_factor 2 5 0"
proof -
  have h1: "\<not> exceeds (k_idx start_state) (max_steps default_config)"
    by (simp add: exceeds_def default_config_def)
  have h2: "corrector newton_solve linear_problem default_config (trial_lmbda start_state)
     (predictor linear_problem default_config start_state (trial_lmbda start_state))
       = Inr (1 / 10, 0)"
    by (simp add: run_defs)
  have h3: "2 \<le> max_newton_steps default_config" by (simp add: default_config_def)
  have h4: "\<forall>m rest. milestone start_state = Some (m, rest) \<longrightarrow> trial_lmbda start_state \<noteq> m"
    by (simp add: start_state_def)
  have h4': "milestone start_state = None" by (simp add: start_state_def)
  have h5: "0 \<le> lambda_stepsize_aggressiveness default_config" by (simp add: default_config_def)
  have r: "natural_step newton_solve linear_problem default_config start_state
     = Running \<lparr>lmbda = 1 / 10, u_acc = 1 / 10, k_idx = 2, lambda_stepsize = 33 / 80,
                milestone = None, calls = [(0, 0, 0), (1, 1 / 10, 1 / 10)]\<rparr>"
    by (simp add: run_defs power2_eq_square)
  have v: "lambda_stepsize_aggressiveness default_config = 2" "max_newton_steps default_config = 5"
    by (simp_all add: default_config_def)
  from stepsize_growth_rule [OF h1 h2 h3 h4] h5
  have "growth_factor (lambda_stepsize_aggressiveness default_config) (max_newton_steps default_config) 1
       \<le> growth_factor (lambda_stepsize_aggressiveness default_config) (max_newton_steps default_config) 0"
    by (simp add: v)
  then have g: "growth_factor 2 5 1 \<le> growth_factor 2 5 0"
    by (simp only: v)
  from h1 h2 h3 h4' h5 r g show ?thesis by blast
qed

text \<open>
  C8 as stated fails: with the aggressiveness 0 the factor is 1 for every number of
  Newton iterations, so it is not strictly decreasing.
\<close>

theorem growth_factor_constant_counterexample:
  "2 \<le> max_newton_steps (default_config\<lparr>lambda_stepsize_aggressiveness := 0\<rparr>) \<and>
   \<not> growth_factor (lambda_stepsize_aggressiveness (default_config\<lparr>lambda_stepsize_aggressiveness := 0\<rparr>))
        (max_newton_steps (default_config\<lparr>lambda_stepsize_aggressiveness := 0\<rparr>)) 2
      < growth_factor (lambda_stepsize_aggressiveness (default_config\<lparr>lambda_stepsize_aggressiveness := 0\<rparr>))
        (max_newton_steps (default_config\<lparr>lambda_stepsize_aggressiveness := 0\<rparr>)) 1"
  by (simp add: default_config_def growth_factor_def)

section \<open>Milestones\<close>

lemma not_skipped_snoc:
  "not_skipped ms seen (ls @ [l]) =
     (not_skipped ms seen ls \<and> (\<forall>m\<in>set ms. m < l \<longrightarrow> m \<in> set seen \<union> set ls))"
  by (induction ls arbitrary: seen) auto

text \<open>The same notion by positions in the list of accepted values.\<close>

lemma not_skipped_index:
  "not_skipped ms seen ls =
     (\<forall>j<length ls. \<forall>m\<in>set ms. m < ls ! j \<longrightarrow> m \<in> set seen \<or> (\<exists>i<j. ls ! i = m))"
proof (induction ls arbitrary: seen)
  case Nil
  show ?case by simp
next
  case (Cons l ls)
  show ?case
    by (simp add: Cons.IH All_less_Suc2 Ex_less_Suc2) blast
qed

lemma call_lmbda_triple [simp]: "call_lmbda (k, l, u) = l"
  by (simp add: call_lmbda_def)

lemma trial_le_milestone:
  "milestone s = Some (m, rest) \<Longrightarrow> trial_lmbda s \<le> m"
  by (simp add: trial_lmbda_def Let_def)

lemma below_pending_hit:
  assumes "sorted_wrt (<) (hit @ m # rest)" "x \<in> set (hit @ m # rest)" "x < l" "l \<le> (m::real)"
  shows "x \<in> set hit"
proof -
  from assms(2) consider "x \<in> set hit" | "x = m" | "x \<in> set rest" by auto
  then show ?thesis
  proof cases
    case 1
    then show ?thesis .
  next
    case 2
    with assms(3,4) show ?thesis by simp
  next
    case 3
    with assms(1) have "m < x" by (simp add: sorted_wrt_append)
    with assms(3,4) show ?thesis by simp
  qed
qed

lemma accept_ms_ok:
  assumes srt: "sorted_wrt (<) ms"
    and inv: "ms_inv ms s"
    and ns: "not_skipped ms [] (map call_lmbda (calls s))"
  shows "ms_ok ms (accept cfg s (trial_lmbda s) u n)"
proof -
  from inv obtain hit m rest where
    mil: "milestone s = Some (m, rest)" and ms: "ms = hit @ m # rest"
    and hit: "set hit \<subseteq> call_lmbda ` set (calls s)"
    and le: "\<forall>c\<in>set (calls s). call_lmbda c \<le> m"
    by (auto simp: ms_inv_def)
  let ?l = "trial_lmbda s"
  let ?c = "calls s @ [(k_idx s, ?l, u)]"
  have lm: "?l \<le> m" using mil by (rule trial_le_milestone)
  have new: "\<forall>x\<in>set ms. x < ?l \<longrightarrow> x \<in> set (map call_lmbda (calls s))"
  proof (intro ballI impI)
    fix x assume "x \<in> set ms" "x < ?l"
    with srt ms lm have "x \<in> set hit" by (auto intro: below_pending_hit)
    with hit show "x \<in> set (map call_lmbda (calls s))" by auto
  qed
  have ns': "not_skipped ms [] (map call_lmbda ?c)"
    using ns new by (simp add: not_skipped_snoc)
  have le': "\<forall>c\<in>set ?c. call_lmbda c \<le> m"
    using le lm by (auto simp: call_lmbda_def)
  show ?thesis
  proof (cases "?l = m")
    case True
    show ?thesis
    proof (cases rest)
      case Nil
      with True mil ns' show ?thesis
        by (simp add: accept_def ms_ok_def Let_def)
    next
      case (Cons m' rest')
      have m': "m < m'" using srt ms Cons by (auto simp: sorted_wrt_append)
      have "ms_inv ms (s\<lparr>lmbda := ?l, u_acc := u, k_idx := k_idx s + 1, calls := ?c,
               milestone := Some (m', rest')\<rparr>)"
        unfolding ms_inv_def
      proof (intro exI conjI)
        show "ms = (hit @ [m]) @ m' # rest'" using ms Cons by simp
        show "set (hit @ [m]) \<subseteq> call_lmbda ` set (calls (s\<lparr>lmbda := ?l, u_acc := u, k_idx := k_idx s + 1, calls := ?c,
               milestone := Some (m', rest')\<rparr>))"
          using hit True by (auto simp: call_lmbda_def image_iff)
        show "\<forall>c\<in>set (calls (s\<lparr>lmbda := ?l, u_acc := u, k_idx := k_idx s + 1, calls := ?c,
               milestone := Some (m', rest')\<rparr>)). call_lmbda c \<le> m'"
          using le' m' by auto
      qed simp
      with True mil Cons ns' show ?thesis
        by (simp add: accept_def ms_ok_def Let_def)
    qed
  next
    case False
    have "ms_inv ms (s\<lparr>lmbda := ?l, u_acc := u, k_idx := k_idx s + 1, calls := ?c,
             lambda_stepsize := x\<rparr>)" for x
      unfolding ms_inv_def using mil ms hit le' by (intro exI [of _ hit] exI [of _ m] exI [of _ rest]) auto
    with False mil ns' show ?thesis
      by (simp add: accept_def ms_ok_def Let_def)
  qed
qed

lemma step_ms_ok:
  assumes srt: "sorted_wrt (<) ms" and ok: "ms_ok ms (Running s)"
  shows "ms_ok ms (natural_step newton_fn problem cfg s)"
proof -
  from ok have inv: "ms_inv ms s" and ns: "not_skipped ms [] (map call_lmbda (calls s))"
    by (simp_all add: ms_ok_def)
  have bo: "ms_ok ms (Running (backoff s (trial_lmbda s)))"
    using inv ns by (simp add: ms_ok_def ms_inv_def backoff_def)
  have same: "ms_ok ms (Returned (calls s))" "\<And>e. ms_ok ms (Raised e (calls s))"
    using ns by (simp_all add: ms_ok_def)
  show ?thesis
  proof (cases "corrector newton_fn problem cfg (trial_lmbda s)
                  (predictor problem cfg s (trial_lmbda s))")
    case (Inl e)
    with bo same show ?thesis
      by (cases e) (simp_all add: natural_step_unfold)
  next
    case (Inr p)
    with same accept_ms_ok [OF srt inv ns] show ?thesis
      by (cases p) (simp add: natural_step_unfold)
  qed
qed

lemma loop_ms_ok:
  assumes srt: "sorted_wrt (<) ms" and ok: "ms_ok ms (Running s0)"
  shows "ms_ok ms (natural_loop newton_fn problem cfg n s0)"
proof (induction n)
  case 0
  with ok show ?case by simp
next
  case (Suc n)
  show ?case
  proof (cases "natural_loop newton_fn problem cfg n s0")
    case (Running s')
    with Suc step_ms_ok [OF srt, of s'] show ?thesis by simp
  next
    case (Returned c)
    with Suc show ?thesis by simp
  next
    case (Raised e c)
    with Suc show ?thesis by simp
  qed
qed

lemma init_ms_ok:
  assumes cfg: "milestones cfg = Some ms" and above: "\<forall>m\<in>set ms. lambda0 < m"
  shows "ms_ok ms (natural_init newton_fn problem u0 lambda0 cfg)"
proof (cases "corrector newton_fn problem cfg lambda0 u0")
  case (Inl e)
  then show ?thesis by (simp add: natural_init_def ms_ok_def)
next
  case (Inr p)
  obtain u n where p: "p = (u, n)" by (cases p)
  have ns: "not_skipped ms [] (map call_lmbda [(0, lambda0, u)])"
    using above by (auto simp: call_lmbda_def)
  show ?thesis
  proof (cases ms)
    case Nil
    with Inr p cfg ns show ?thesis by (simp add: natural_init_def ms_ok_def)
  next
    case (Cons m rest)
    have "ms_inv ms \<lparr>lmbda = lambda0, u_acc = u, k_idx = 1,
             lambda_stepsize = lambda_stepsize0 cfg, milestone = Some (m, rest),
             calls = [(0, lambda0, u)]\<rparr>"
      unfolding ms_inv_def using Cons above
      by (intro exI [of _ "[]"] exI [of _ m] exI [of _ rest]) (auto simp: call_lmbda_def)
    with Inr p cfg ns Cons show ?thesis by (simp add: natural_init_def ms_ok_def)
  qed
qed

lemma natural_ms_ok:
  assumes "milestones cfg = Some ms" "sorted_wrt (<) ms" "\<forall>m\<in>set ms. lambda0 < m"
  shows "ms_ok ms (natural newton_fn problem u0 lambda0 cfg n)"
proof (cases "natural_init newton_fn problem u0 lambda0 cfg")
  case (Running s0)
  with init_ms_ok [OF assms(1,3), of newton_fn problem u0] loop_ms_ok [OF assms(2), of s0]
  show ?thesis by (simp add: natural_def)
next
  case (Returned c)
  with init_ms_ok [OF assms(1,3), of newton_fn problem u0] show ?thesis by (simp add: natural_def)
next
  case (Raised e c)
  with init_ms_ok [OF assms(1,3), of newton_fn problem u0] show ?thesis by (simp add: natural_def)
qed

lemma final_milestone_returns:
  assumes srt: "sorted_wrt (<) ms" and inv: "ms_inv ms s"
    and c: "calls_of (natural_step newton_fn problem cfg s) = calls s @ [(j, last ms, v)]"
  shows "natural_step newton_fn problem cfg s = Returned (calls s @ [(j, last ms, v)])"
proof -
  from inv obtain hit m rest where
    mil: "milestone s = Some (m, rest)" and ms: "ms = hit @ m # rest"
    by (auto simp: ms_inv_def)
  have lm: "trial_lmbda s \<le> m" using mil by (rule trial_le_milestone)
  have notsame: "calls s \<noteq> calls s @ [(j, last ms, v)]" by simp
  obtain u n where
    cor: "corrector newton_fn problem cfg (trial_lmbda s)
            (predictor problem cfg s (trial_lmbda s)) = Inr (u, n)"
    and ne: "\<not> exceeds (k_idx s) (max_steps cfg)"
  proof (cases "corrector newton_fn problem cfg (trial_lmbda s)
                  (predictor problem cfg s (trial_lmbda s))")
    case (Inl e)
    with c notsame have False
      by (cases e) (auto simp: natural_step_unfold backoff_def split: if_splits)
    then show ?thesis ..
  next
    case (Inr p)
    with c notsame that show ?thesis
      by (cases p) (auto simp: natural_step_unfold split: if_splits)
  qed
  have st: "natural_step newton_fn problem cfg s = accept cfg s (trial_lmbda s) u n"
    using cor ne by (simp add: natural_step_unfold)
  with c have l: "trial_lmbda s = last ms"
    by (simp add: calls_of_accept)
  have rest: "rest = []"
  proof (rule ccontr)
    assume "rest \<noteq> []"
    then have "last ms = last rest" "last rest \<in> set rest" using ms by simp_all
    with srt ms have "m < last ms" by (simp add: sorted_wrt_append)
    with l lm show False by simp
  qed
  with ms have "last ms = m" by simp
  with l rest mil have "accept cfg s (trial_lmbda s) u n
      = Returned (calls s @ [(k_idx s, trial_lmbda s, u)])"
    by (simp add: accept_def Let_def)
  with st c show ?thesis by simp
qed

text \<open>
  C7. With a strictly increasing milestone sequence above \<open>\<lambda>0\<close>, no accepted step has a
  parameter value above a milestone before an accepted step has exactly that milestone
  as its value; and a step accepted at the final milestone makes the driver return.
\<close>

theorem milestones_not_skipped:
  assumes "milestones cfg = Some ms" and "sorted_wrt (<) ms" and "\<forall>m\<in>set ms. lambda0 < m"
  shows "not_skipped ms [] (map call_lmbda (calls_of (natural newton_fn problem u0 lambda0 cfg n))) \<and>
         (\<forall>s j v. natural newton_fn problem u0 lambda0 cfg n = Running s \<and>
                  calls_of (natural newton_fn problem u0 lambda0 cfg (Suc n))
                    = calls s @ [(j, last ms, v)] \<longrightarrow>
                  natural newton_fn problem u0 lambda0 cfg (Suc n)
                    = Returned (calls s @ [(j, last ms, v)]))"
proof (intro conjI allI impI)
  show "not_skipped ms [] (map call_lmbda (calls_of (natural newton_fn problem u0 lambda0 cfg n)))"
    using natural_ms_ok [OF assms, of newton_fn problem u0 n] by (simp add: ms_ok_def)
next
  fix s j v
  assume a: "natural newton_fn problem u0 lambda0 cfg n = Running s \<and>
             calls_of (natural newton_fn problem u0 lambda0 cfg (Suc n)) = calls s @ [(j, last ms, v)]"
  then have run: "natural newton_fn problem u0 lambda0 cfg n = Running s" by simp
  have inv: "ms_inv ms s"
    using natural_ms_ok [OF assms, of newton_fn problem u0 n] run by (simp add: ms_ok_def)
  from a show "natural newton_fn problem u0 lambda0 cfg (Suc n) = Returned (calls s @ [(j, last ms, v)])"
    using final_milestone_returns [OF assms(2) inv, of newton_fn problem cfg j v]
    by (simp add: natural_Suc [OF run])
qed

text \<open>
  The milestones \<open>[0.5, 1.0]\<close> with initial step size \<open>0.3\<close>: the accepted values are
  \<open>0, 0.3, 0.5, 1\<close>, and the driver returns with the step accepted at \<open>1\<close>.
\<close>

theorem milestones_not_skipped_witness:
  "milestones two_milestones_config = Some [1 / 2, 1] \<and>
   sorted_wrt (<) [1 / 2, 1 :: real] \<and> (0 :: real) < 1 / 2 \<and> (0 :: real) < 1 \<and>
   natural newton_solve linear_problem 0 0 two_milestones_config 2
     = Running \<lparr>lmbda = 1 / 2, u_acc = 1 / 2, k_idx = 3, lambda_stepsize = 99 / 80,
                milestone = Some (1, []),
                calls = [(0, 0, 0), (1, 3 / 10, 3 / 10), (2, 1 / 2, 1 / 2)]\<rparr> \<and>
   natural newton_solve linear_problem 0 0 two_milestones_config (Suc 2)
     = Returned [(0, 0, 0), (1, 3 / 10, 3 / 10), (2, 1 / 2, 1 / 2), (3, 1, 1)]"
proof -
  let ?s2 = "\<lparr>lmbda = 1 / 2, u_acc = 1 / 2, k_idx = 3, lambda_stepsize = 99 / 80,
               milestone = Some (1, []),
               calls = [(0, 0, 0), (1, 3 / 10, 3 / 10), (2, 1 / 2, 1 / 2)]\<rparr> :: real state"
  have m: "milestones two_milestones_config = Some [1 / 2, 1]"
    by (simp add: two_milestones_config_def)
  have s: "sorted_wrt (<) [1 / 2, 1 :: real]" by simp
  have a: "\<forall>m\<in>set [1 / 2, 1 :: real]. 0 < m" by simp
  have r2: "natural newton_solve linear_problem 0 0 two_milestones_config 2 = Running ?s2"
    by (simp add: run_defs eval_nat_numeral)
  have c3: "calls_of (natural newton_solve linear_problem 0 0 two_milestones_config (Suc 2))
              = calls ?s2 @ [(3, last [1 / 2, 1], 1)]"
    by (simp add: run_defs eval_nat_numeral)
  from milestones_not_skipped [OF m s a, of newton_solve linear_problem 0 2] r2 c3
  have "natural newton_solve linear_problem 0 0 two_milestones_config (Suc 2)
          = Returned (calls ?s2 @ [(3, last [1 / 2, 1], 1)])"
    by blast
  then have r3: "natural newton_solve linear_problem 0 0 two_milestones_config (Suc 2)
     = Returned [(0, 0, 0), (1, 3 / 10, 3 / 10), (2, 1 / 2, 1 / 2), (3, 1, 1)]"
    by simp
  from m s r2 r3 show ?thesis by simp
qed

section \<open>An empty milestone sequence\<close>

text \<open>
  C10. Called with an empty milestone sequence, the driver solves the initial point,
  invokes the callback for it, and then raises \<^verbatim>\<open>StopIteration\<close> from taking the first
  milestone: no pass through the loop is made.
\<close>

theorem natural_empty_milestones_raises:
  assumes "milestones cfg = Some []"
    and "corrector newton_fn problem cfg lambda0 u0 = Inr (u, n)"
  shows "natural newton_fn problem u0 lambda0 cfg fuel = Raised StopIteration [(0, lambda0, u)]"
  using assms by (simp add: natural_def natural_init_def)

theorem natural_empty_milestones_raises_witness:
  "milestones empty_milestones_config = Some [] \<and>
   corrector newton_solve linear_problem empty_milestones_config 0 0 = Inr (0, 0) \<and>
   natural newton_solve linear_problem 0 0 empty_milestones_config 3
     = Raised StopIteration [(0, 0, 0)]"
proof -
  have m: "milestones empty_milestones_config = Some []"
    by (simp add: empty_milestones_config_def)
  have c: "corrector newton_solve linear_problem empty_milestones_config 0 0 = Inr (0, 0)"
    by (simp add: run_defs)
  from natural_empty_milestones_raises [OF m c, of 3] m c show ?thesis by simp
qed

section \<open>A failed corrector\<close>

text \<open>
  What the handler of \<^verbatim>\<open>NewtonConvergenceError\<close> does: \<^verbatim>\<open>u\<close>, \<^verbatim>\<open>k\<close>, the callback
  invocations and the milestone stay, the step size is halved, and with a positive step
  size the next trial value is below the failed one (in exact arithmetic). Subtracting the step size restores
  the accepted parameter value when the trial value was not clamped; after a clamp to
  the milestone \<open>m\<close> it gives \<open>m - \<Delta>\<lambda>\<close>, which is below the accepted value.
\<close>

lemma natural_step_backoff:
  assumes "\<not> exceeds (k_idx s) (max_steps cfg)"
    and "corrector newton_fn problem cfg (trial_lmbda s)
           (predictor problem cfg s (trial_lmbda s)) = Inl (NewtonConvergenceError n)"
  shows "natural_step newton_fn problem cfg s = Running (backoff s (trial_lmbda s))"
  using assms by (simp add: natural_step_unfold)

lemma backoff_keeps:
  "u_acc (backoff s l) = u_acc s" "k_idx (backoff s l) = k_idx s"
  "calls (backoff s l) = calls s" "milestone (backoff s l) = milestone s"
  "lambda_stepsize (backoff s l) = lambda_stepsize s / 2"
  by (simp_all add: backoff_def)

lemma backoff_next_trial_smaller:
  assumes "0 < lambda_stepsize s"
  shows "trial_lmbda (backoff s (trial_lmbda s)) < trial_lmbda s"
proof (cases "milestone s")
  case None
  with assms show ?thesis by (simp add: trial_lmbda_def backoff_def Let_def)
next
  case (Some p)
  obtain m rest where "p = (m, rest)" by (cases p)
  with Some assms show ?thesis
    by (simp add: trial_lmbda_def backoff_def Let_def min_def)
qed

lemma backoff_restores_unclamped:
  assumes "trial_lmbda s = lmbda s + lambda_stepsize s"
  shows "lmbda (backoff s (trial_lmbda s)) = lmbda s"
  using assms by (simp add: backoff_def)

lemma backoff_after_clamp:
  assumes "milestone s = Some (m, rest)" and "m < lmbda s + lambda_stepsize s"
  shows "lmbda (backoff s (trial_lmbda s)) = m - lambda_stepsize s"
    and "lmbda (backoff s (trial_lmbda s)) < lmbda s"
  using assms by (simp_all add: backoff_def trial_lmbda_def Let_def)

text \<open>
  C6. After a failed trial the driver is to be back at the last accepted \<open>(u, \<lambda>)\<close>. In
  the run towards the milestone \<open>1/2\<close> the accepted value is \<open>2/5\<close>; the trial value is
  clamped to \<open>1/2\<close>, the corrector fails there, and the driver continues from \<open>1/5\<close>, so
  that its next trial value \<open>7/20\<close> lies below the accepted value.
\<close>

theorem backoff_loses_accepted_lmbda:
  "natural newton_solve capped_problem 0 (2 / 5) milestone_config 0 = Running accepted_state \<and>
   trial_lmbda accepted_state = 1 / 2 \<and>
   corrector newton_solve capped_problem milestone_config (trial_lmbda accepted_state)
     (predictor capped_problem milestone_config accepted_state (trial_lmbda accepted_state))
       = Inl (NewtonConvergenceError 5) \<and>
   natural_step newton_solve capped_problem milestone_config accepted_state
     = Running backed_off_state \<and>
   lmbda backed_off_state = 1 / 5 \<and> lmbda accepted_state = 2 / 5 \<and>
   trial_lmbda backed_off_state = 7 / 20"
proof -
  have "natural newton_solve capped_problem 0 (2 / 5) milestone_config 0 = Running accepted_state"
    by (simp add: run_defs)
  moreover have "trial_lmbda accepted_state = 1 / 2"
    by (simp add: run_defs)
  moreover have "corrector newton_solve capped_problem milestone_config (trial_lmbda accepted_state)
     (predictor capped_problem milestone_config accepted_state (trial_lmbda accepted_state))
       = Inl (NewtonConvergenceError 5)"
    by (simp add: run_defs)
  moreover have "natural_step newton_solve capped_problem milestone_config accepted_state
     = Running backed_off_state"
    by (simp add: run_defs)
  moreover have "lmbda backed_off_state = 1 / 5" "lmbda accepted_state = 2 / 5"
    by (simp_all add: run_defs)
  moreover have "trial_lmbda backed_off_state = 7 / 20"
    by (simp add: run_defs)
  ultimately show ?thesis by blast
qed

text \<open>
  C3. At the start of every continuation step the stored \<^verbatim>\<open>u\<close> is to be a converged root
  for the current \<^verbatim>\<open>lmbda\<close>. After the failed trial of that run the stored \<^verbatim>\<open>u\<close> is the
  root at \<open>2/5\<close> while \<^verbatim>\<open>lmbda\<close> is \<open>1/5\<close>: its residual norm is \<open>1/25\<close>, not below
  \<^verbatim>\<open>newton_tol\<close>.
\<close>

theorem stored_u_not_a_root_after_backoff:
  "natural newton_solve capped_problem 0 (2 / 5) milestone_config 1 = Running backed_off_state \<and>
   residual_norm capped_problem (u_acc backed_off_state) (lmbda backed_off_state) = 1 / 25 \<and>
   \<not> residual_norm capped_problem (u_acc backed_off_state) (lmbda backed_off_state)
        < newton_tol milestone_config"
  by (simp add: run_defs residual_norm_def eval_nat_numeral)

text \<open>
  C4. The parameter values passed to the callback are to be non-decreasing. In that run
  the callback receives \<open>2/5\<close> for step 0 and then \<open>7/20\<close> for step 1.
\<close>

theorem callback_lmbda_decreases:
  "calls_of (natural newton_solve capped_problem 0 (2 / 5) milestone_config 2)
     = [(0, 2 / 5, 2 / 5), (1, 7 / 20, 7 / 20)] \<and>
   call_lmbda (calls_of (natural newton_solve capped_problem 0 (2 / 5) milestone_config 2) ! 1)
     < call_lmbda (calls_of (natural newton_solve capped_problem 0 (2 / 5) milestone_config 2) ! 0)"
proof -
  have c: "calls_of (natural newton_solve capped_problem 0 (2 / 5) milestone_config 2)
     = [(0, 2 / 5, 2 / 5), (1, 7 / 20, 7 / 20)]"
    by (simp add: run_defs eval_nat_numeral)
  show ?thesis
    by (simp add: c call_lmbda_def)
qed

section \<open>Callbacks receive converged solutions\<close>

text \<open>
  The part of C3 that holds: with a solver whose successful result has a residual norm
  below the tolerance, as the modelled one, every callback invocation receives a \<^verbatim>\<open>u\<close>
  with residual norm below \<^verbatim>\<open>newton_tol\<close> at the parameter value it is invoked with.
\<close>

lemma newton_solve_loop_converged:
  "newton_solve_loop rf ls nf tol max_iter u k = Inr (v, n) \<Longrightarrow> nf (rf v) < tol"
proof (induction rf ls nf tol max_iter u k rule: newton_solve_loop.induct)
  case (1 rf ls nf tol max_iter u k)
  show ?case
  proof (cases "\<not> nf (rf u) < tol \<and> k < max_iter")
    case True
    with "1.prems" have "newton_solve_loop rf ls nf tol max_iter (u + ls u (- rf u)) (k + 1) = Inr (v, n)"
      by (subst (asm) newton_solve_loop.simps) simp
    with True "1.IH" show ?thesis by simp
  next
    case False
    with "1.prems" show ?thesis
      by (subst (asm) newton_solve_loop.simps) (auto split: if_splits)
  qed
qed

lemma newton_solve_converged:
  "newton_solve rf ls nf u0 tol max_iter = Inr (v, n) \<Longrightarrow> nf (rf v) < tol"
  unfolding newton_solve_def by (rule newton_solve_loop_converged)

lemma callbacks_converged:
  assumes solver: "\<And>rf ls nf u0 tol max_iter v n.
      newton_fn rf ls nf u0 tol max_iter = Inr (v, n) \<Longrightarrow> nf (rf v) < tol"
  shows "\<forall>c\<in>set (calls_of (natural newton_fn problem u0 lambda0 cfg n)).
           residual_norm problem (snd (snd c)) (call_lmbda c) < newton_tol cfg"
proof -
  let ?P = "\<lambda>out. \<forall>c\<in>set (calls_of out).
              residual_norm problem (snd (snd c)) (call_lmbda c) < newton_tol cfg"
  have cor: "residual_norm problem v l < newton_tol cfg"
    if "corrector newton_fn problem cfg l w = Inr (v, m)" for l w v m
    using solver that by (simp add: corrector_def residual_norm_def)
  have init: "?P (natural_init newton_fn problem u0 lambda0 cfg)"
  proof (cases "corrector newton_fn problem cfg lambda0 u0")
    case (Inl e)
    then show ?thesis by (simp add: natural_init_def)
  next
    case (Inr p)
    obtain v m where p: "p = (v, m)" by (cases p)
    with Inr cor have "residual_norm problem v lambda0 < newton_tol cfg" by simp
    with Inr p show ?thesis
      by (simp add: natural_init_def Let_def split: option.splits list.splits)
  qed
  have step: "?P (natural_step newton_fn problem cfg s)" if "?P (Running s)" for s
  proof (cases "corrector newton_fn problem cfg (trial_lmbda s)
                  (predictor problem cfg s (trial_lmbda s))")
    case (Inl e)
    with that show ?thesis
      by (cases e) (simp_all add: natural_step_unfold backoff_def)
  next
    case (Inr p)
    obtain v m where p: "p = (v, m)" by (cases p)
    with Inr cor have "residual_norm problem v (trial_lmbda s) < newton_tol cfg" by simp
    with Inr p that show ?thesis
      by (simp add: natural_step_unfold calls_of_accept)
  qed
  have loop: "?P (natural_loop newton_fn problem cfg n s0)" if "?P (Running s0)" for s0
  proof (induction n)
    case 0
    with that show ?case by simp
  next
    case (Suc n)
    show ?case
    proof (cases "natural_loop newton_fn problem cfg n s0")
      case (Running s')
      with Suc step [of s'] show ?thesis by simp
    next
      case (Returned c)
      with Suc show ?thesis by simp
    next
      case (Raised e c)
      with Suc show ?thesis by simp
    qed
  qed
  show ?thesis
  proof (cases "natural_init newton_fn problem u0 lambda0 cfg")
    case (Running s0)
    with init loop [of s0] show ?thesis by (simp add: natural_def)
  next
    case (Returned c)
    with init show ?thesis by (simp add: natural_def)
  next
    case (Raised e c)
    with init show ?thesis by (simp add: natural_def)
  qed
qed

end
